theory Spec2Isabelle
  imports Complex_Main "HOL-Library.AList" "HOL-Library.Sublist"
begin

section \<open>Python strings\<close>

text \<open>
  A Python \<^verbatim>\<open>str\<close> is modelled as a \<^typ>\<open>string\<close>: a list of characters, each
  character being a code point below 256. The character classes below are the
  restrictions of Python's Unicode classes to that range.
\<close>

definition isspace :: "char \<Rightarrow> bool" where
  \<comment> \<open>\<^verbatim>\<open>str.isspace\<close>, also the class \<^verbatim>\<open>\s\<close> of \<^verbatim>\<open>re\<close> and what \<^verbatim>\<open>str.strip()\<close> removes\<close>
  "isspace c =
     (let n = (of_char c :: nat)
      in (9 \<le> n \<and> n \<le> 13) \<or> (28 \<le> n \<and> n \<le> 32) \<or> n = 133 \<or> n = 160)"

definition strip :: "string \<Rightarrow> string" where
  \<comment> \<open>\<^verbatim>\<open>s.strip()\<close>\<close>
  "strip s = rev (dropWhile isspace (rev (dropWhile isspace s)))"

definition lstrip_space :: "string \<Rightarrow> string" where
  \<comment> \<open>\<^verbatim>\<open>s.lstrip(' ')\<close>\<close>
  "lstrip_space s = dropWhile (\<lambda>c. c = CHR '' '') s"

fun str_contains :: "string \<Rightarrow> string \<Rightarrow> bool" where
  \<comment> \<open>\<^verbatim>\<open>title in line\<close>: \<open>str_contains line title\<close>\<close>
  "str_contains [] title = (title = [])"
| "str_contains (c # cs) title = (prefix title (c # cs) \<or> str_contains cs title)"

definition isdigit :: "char \<Rightarrow> bool" where
  \<comment> \<open>the decimal digits: the class \<^verbatim>\<open>\d\<close> of \<^verbatim>\<open>re\<close>, and the digits of \<^verbatim>\<open>float\<close> and \<^verbatim>\<open>int\<close>\<close>
  "isdigit c = (let n = (of_char c :: nat) in 48 \<le> n \<and> n \<le> 57)"


definition digit_val :: "char \<Rightarrow> nat" where
  "digit_val c = of_char c - 48"

definition digits_val :: "string \<Rightarrow> nat" where
  "digits_val ds = foldl (\<lambda>a c. 10 * a + digit_val c) 0 ds"

definition lower :: "char \<Rightarrow> char" where
  \<comment> \<open>lower case of an ASCII letter\<close>
  "lower c =
     (let n = (of_char c :: nat) in if 65 \<le> n \<and> n \<le> 90 then char_of (n + 32) else c)"

datatype pyerr = TypeError | ValueError | OverflowError | AttributeError | KeyError

section \<open>Python floats\<close>

text \<open>
  A \<^verbatim>\<open>float\<close> is an IEEE 754 double: a finite value (kept as the rational number it
  denotes, with the negative zero apart), an infinity or a NaN.
\<close>

datatype pyfloat = Fin rat | NegZero | PosInf | NegInf | NaN

fun bitlen :: "nat \<Rightarrow> nat" where
  "bitlen n = (if n = 0 then 0 else Suc (bitlen (n div 2)))"

declare bitlen.simps [simp del]

definition pow2 :: "int \<Rightarrow> rat" where
  "pow2 e = (if 0 \<le> e then 2 ^ nat e else 1 / 2 ^ nat (- e))"

definition floor_log2 :: "nat \<Rightarrow> nat \<Rightarrow> int" where
  \<comment> \<open>the \<open>k\<close> with \<open>2 ^ k \<le> num / den < 2 ^ (k + 1)\<close>, for positive \<open>num\<close> and \<open>den\<close>\<close>
  "floor_log2 num den =
     (let d = int (bitlen num) - int (bitlen den)
      in if (if 0 \<le> d then den * 2 ^ nat d \<le> num else den \<le> num * 2 ^ nat (- d))
         then d else d - 1)"

definition round_half_even :: "nat \<Rightarrow> nat \<Rightarrow> nat" where
  \<comment> \<open>\<open>num / den\<close> rounded to the nearest integer, a tie to the even one\<close>
  "round_half_even num den =
     (let q = num div den; r = num mod den
      in if 2 * r < den then q
         else if den < 2 * r then q + 1
         else if even q then q else q + 1)"

definition round_double :: "bool \<Rightarrow> nat \<Rightarrow> nat \<Rightarrow> pyfloat" where
  \<comment> \<open>the double nearest to \<open>\<plusminus> num / den\<close> (53 bits of precision, exponents from
      \<open>- 1074\<close>, overflow to an infinity, underflow to a zero of the same sign)\<close>
  "round_double neg num den =
     (if num = 0 then (if neg then NegZero else Fin 0)
      else
        let e = max (floor_log2 num den - 52) (- 1074);
            m = (if 0 \<le> e then round_half_even num (den * 2 ^ nat e)
                 else round_half_even (num * 2 ^ nat (- e)) den)
        in if m = 0 then (if neg then NegZero else Fin 0)
           else if 971 < e \<or> (e = 971 \<and> 2 ^ 53 \<le> m) then (if neg then NegInf else PosInf)
           else Fin ((if neg then - 1 else 1) * of_nat m * pow2 e))"

definition float_space :: "char \<Rightarrow> bool" where
  \<comment> \<open>the white space that \<^verbatim>\<open>float\<close> and \<^verbatim>\<open>int\<close> remove around a number\<close>
  "float_space c = (let n = (of_char c :: nat) in (9 \<le> n \<and> n \<le> 13) \<or> n = 32 \<or> n = 133 \<or> n = 160)"

fun underscores_ok :: "char option \<Rightarrow> string \<Rightarrow> bool" where
  \<comment> \<open>an underscore stands between two digits only; the first argument is the previous character\<close>
  "underscores_ok prev [] = (prev \<noteq> Some CHR ''_'')"
| "underscores_ok prev (c # cs) =
     ((if c = CHR ''_'' then (case prev of Some p \<Rightarrow> isdigit p | None \<Rightarrow> False)
       else prev = Some CHR ''_'' \<longrightarrow> isdigit c)
      \<and> underscores_ok (Some c) cs)"

definition split_sign :: "string \<Rightarrow> bool \<times> string" where
  \<comment> \<open>an optional sign: whether it is a minus, and the rest\<close>
  "split_sign s =
     (case s of
        [] \<Rightarrow> (False, [])
      | c # cs \<Rightarrow> if c = CHR ''-'' then (True, cs) else if c = CHR ''+'' then (False, cs) else (False, s))"

definition parse_decimal :: "string \<Rightarrow> (nat \<times> int) option" where
  \<comment> \<open>an unsigned decimal number with an optional exponent, all of the string:
      \<open>Some (m, e)\<close> stands for \<open>m * 10 ^ e\<close>\<close>
  "parse_decimal s =
     (let ip = takeWhile isdigit s; r1 = dropWhile isdigit s;
          fp = (case r1 of [] \<Rightarrow> [] | c # cs \<Rightarrow> if c = CHR ''.'' then takeWhile isdigit cs else []);
          r2 = (case r1 of [] \<Rightarrow> [] | c # cs \<Rightarrow> if c = CHR ''.'' then dropWhile isdigit cs else r1)
      in if ip = [] \<and> fp = [] then None
         else case r2 of
           [] \<Rightarrow> Some (digits_val (ip @ fp), - int (length fp))
         | c # cs \<Rightarrow>
             if c = CHR ''e'' \<or> c = CHR ''E''
             then (let (eneg, ds) = split_sign cs
                   in if ds \<noteq> [] \<and> list_all isdigit ds
                      then Some (digits_val (ip @ fp),
                                 (if eneg then - int (digits_val ds) else int (digits_val ds)) - int (length fp))
                      else None)
             else None)"

definition float_py :: "string \<Rightarrow> pyerr + pyfloat" where
  \<comment> \<open>\<^verbatim>\<open>float(s)\<close> for a string \<^verbatim>\<open>s\<close>\<close>
  "float_py s =
     (if \<not> underscores_ok None s then Inl ValueError
      else
        let t = filter (\<lambda>c. c \<noteq> CHR ''_'') s;
            u = rev (dropWhile float_space (rev (dropWhile float_space t)));
            (neg, v) = split_sign u;
            w = map lower v
        in if w = ''inf'' \<or> w = ''infinity'' then Inr (if neg then NegInf else PosInf)
           else if w = ''nan'' then Inr NaN
           else case parse_decimal v of
             None \<Rightarrow> Inl ValueError
           | Some (m, e) \<Rightarrow>
               Inr (if 0 \<le> e then round_double neg (m * 10 ^ nat e) 1
                    else round_double neg m (10 ^ nat (- e))))"

definition int_of_float :: "pyfloat \<Rightarrow> pyerr + int" where
  \<comment> \<open>\<^verbatim>\<open>int(fval)\<close>: truncation towards zero\<close>
  "int_of_float f =
     (case f of
        Fin q \<Rightarrow> Inr (if 0 \<le> q then \<lfloor>q\<rfloor> else - \<lfloor>- q\<rfloor>)
      | NegZero \<Rightarrow> Inr 0
      | PosInf \<Rightarrow> Inl OverflowError
      | NegInf \<Rightarrow> Inl OverflowError
      | NaN \<Rightarrow> Inl ValueError)"

definition float_eq_int :: "pyfloat \<Rightarrow> int \<Rightarrow> bool" where
  \<comment> \<open>\<^verbatim>\<open>fval == ival\<close>\<close>
  "float_eq_int f i = (case f of Fin q \<Rightarrow> q = of_int i | NegZero \<Rightarrow> i = 0 | _ \<Rightarrow> False)"


section \<open>Values, classes and objects\<close>

text \<open>
  The type of a field, as the class annotations give it: \<^verbatim>\<open>int\<close>, \<^verbatim>\<open>float\<close>,
  \<^verbatim>\<open>str\<close>, a union of string literals, or a nested class deriving from
  \<^verbatim>\<open>IOMixin\<close>. A class is given by its \<^verbatim>\<open>__annotations__\<close>, the list of its field
  names and types in the order of declaration.
\<close>

datatype vtype = T_int | T_float | T_str | T_literal "string list" | T_class "(string \<times> vtype) list"

text \<open>
  The values that the program handles: strings, integers, floats, \<^verbatim>\<open>None\<close>, objects
  and dictionaries with string keys (in insertion order). An object is given by the
  annotations that \<^verbatim>\<open>self.__annotations__\<close> finds and by the attributes set on the
  instance, in the order they were set. There are two kinds of objects:

    \<^item> \<open>VObj\<close>, a record: an instance of a class deriving from \<^verbatim>\<open>IOMixin\<close>
      (\<^verbatim>\<open>NVSMI_Static\<close>, \<^verbatim>\<open>NVSMI_Dynamic\<close> and their nested classes). Its
      \<^verbatim>\<open>__dict__\<close> is the dictionary of the instance: in the order of method resolution
      \<^verbatim>\<open>IMixin\<close>, which has the ordinary \<^verbatim>\<open>__dict__\<close>, comes before \<^verbatim>\<open>OMixin\<close>.

    \<^item> \<open>VFacade\<close>: an instance of a class deriving from \<^verbatim>\<open>OMixin\<close> and \<^verbatim>\<open>DMixin\<close>
      only (\<^verbatim>\<open>NVSMI\<close>, \<^verbatim>\<open>NVSMI_Entry\<close>). Its \<^verbatim>\<open>__dict__\<close> is the method that
      \<^verbatim>\<open>OMixin\<close> defines under that name.

  An instance of a class that declares no field has no \<^verbatim>\<open>__annotations__\<close> (neither
  the class nor the mixins have any), unless the instance itself was given one, as in
  \<^verbatim>\<open>NVSMI.__init__\<close>: the empty list of annotations stands for that absence.
\<close>

datatype pyval =
    VStr string
  | VInt int
  | VFloat pyfloat
  | VNone
  | VObj "(string \<times> vtype) list" "(string \<times> pyval) list"
  | VFacade "(string \<times> vtype) list" "(string \<times> pyval) list"
  | VDict "(string \<times> pyval) list"

section \<open>Regular expressions\<close>

text \<open>
  The fragment of \<^verbatim>\<open>re\<close> that the program uses: a literal character, a greedy
  repetition \<^verbatim>\<open>[...]+\<close> of a character class, a capturing group and concatenation.
  \<open>re_match r s\<close> lists the ways \<open>r\<close> matches a prefix of \<open>s\<close>, in the order a
  backtracking matcher tries them, each with the text of its groups and the rest of the
  input.
\<close>

datatype regex = RChar char | RPlus "char \<Rightarrow> bool" | RGroup regex | RSeq regex regex

fun re_match :: "regex \<Rightarrow> string \<Rightarrow> (string list \<times> string) list" where
  "re_match (RChar c) s = (case s of [] \<Rightarrow> [] | x # xs \<Rightarrow> if x = c then [([], xs)] else [])"
| "re_match (RPlus p) s = map (\<lambda>k. ([], drop k s)) (rev [1 ..< Suc (length (takeWhile p s))])"
| "re_match (RGroup r) s =
     map (\<lambda>(gs, rest). (take (length s - length rest) s # gs, rest)) (re_match r s)"
| "re_match (RSeq r1 r2) s =
     concat (map (\<lambda>(g1, s1). map (\<lambda>(g2, s2). (g1 @ g2, s2)) (re_match r2 s1)) (re_match r1 s))"

fun re_search :: "regex \<Rightarrow> string \<Rightarrow> (string \<times> string list) option" where
  \<comment> \<open>\<^verbatim>\<open>re.search\<close>: the first match from the leftmost position that has one, as the
      matched text (group 0) and the groups\<close>
  "re_search r [] = (case re_match r [] of [] \<Rightarrow> None | (gs, rest) # _ \<Rightarrow> Some ([], gs))"
| "re_search r (c # cs) =
     (case re_match r (c # cs) of
        [] \<Rightarrow> re_search r cs
      | (gs, rest) # _ \<Rightarrow> Some (take (length (c # cs) - length rest) (c # cs), gs))"


definition digits_dots :: regex where
  \<comment> \<open>\<^verbatim>\<open>r'[\d\.]+'\<close>\<close>
  "digits_dots = RPlus (\<lambda>c. isdigit c \<or> c = CHR ''.'')"


section \<open>Text utilities\<close>

definition regex_find :: "string \<Rightarrow> regex \<Rightarrow> string" where
  "regex_find template pattern =
     (case re_search pattern template of None \<Rightarrow> '''' | Some (g0, gs) \<Rightarrow> g0)"

definition str_to_num_try :: "string \<Rightarrow> pyerr + pyval" where
  \<comment> \<open>the body of the \<^verbatim>\<open>try\<close> block of \<^verbatim>\<open>str_to_num\<close>\<close>
  "str_to_num_try s =
     (case float_py s of
        Inl e \<Rightarrow> Inl e
      | Inr fval \<Rightarrow>
          (case int_of_float fval of
             Inl e \<Rightarrow> Inl e
           | Inr ival \<Rightarrow> Inr (if float_eq_int fval ival then VInt ival else VFloat fval)))"

definition str_to_num :: "string \<Rightarrow> pyerr + pyval" where
  \<comment> \<open>the bare \<^verbatim>\<open>except\<close> catches whatever the body raises\<close>
  "str_to_num s = (case str_to_num_try s of Inl e \<Rightarrow> Inr (VInt (- 1)) | Inr v \<Rightarrow> Inr v)"

fun lines_find_line :: "string list \<Rightarrow> string \<Rightarrow> string" where
  "lines_find_line [] title = ''''"
| "lines_find_line (line # lines) title =
     (if str_contains line title then line else lines_find_line lines title)"

definition count_leading_spaces :: "string \<Rightarrow> int" where
  "count_leading_spaces line = int (length line) - int (length (lstrip_space line))"

text \<open>
  The loop of \<^verbatim>\<open>lines_find_section\<close>, with its three variables \<^verbatim>\<open>section\<close>,
  \<^verbatim>\<open>found\<close> and \<^verbatim>\<open>indent\<close> passed along. The test for the header comes first
  in the loop body, before the test of \<^verbatim>\<open>found\<close>, as in the source.
\<close>

fun section_loop :: "string \<Rightarrow> string list \<Rightarrow> string list \<Rightarrow> bool \<Rightarrow> int \<Rightarrow> string list" where
  "section_loop title [] section found indent = section"
| "section_loop title (line # lines) section found indent =
     (if title = strip line
      then section_loop title lines (section @ [line]) True (count_leading_spaces line)
      else if found
      then (if count_leading_spaces line > indent
            then section_loop title lines (section @ [line]) found indent
            else section)
      else section_loop title lines section found indent)"

definition lines_find_section :: "string list \<Rightarrow> string \<Rightarrow> string list" where
  "lines_find_section lines title = section_loop title lines [] False (- 1)"

section \<open>Attribute access (\<^verbatim>\<open>DMixin\<close>)\<close>

text \<open>
  The attributes of an instance are kept as an association list in the order they were
  set, as a Python \<^verbatim>\<open>dict\<close> keeps them. Field names are taken to be ordinary
  attribute names: a name that the classes already use for a method or a special
  attribute (\<^verbatim>\<open>to_dict\<close>, \<^verbatim>\<open>__dict__\<close>, \<^verbatim>\<open>__class__\<close>, ...) is outside the model.
\<close>

definition hasattr :: "(string \<times> pyval) list \<Rightarrow> string \<Rightarrow> bool" where
  "hasattr attrs name = (map_of attrs name \<noteq> None)"

definition getitem :: "(string \<times> pyval) list \<Rightarrow> string \<Rightarrow> pyval" where
  \<comment> \<open>\<^verbatim>\<open>__getitem__\<close>: \<^verbatim>\<open>getattr(self, name, None)\<close>\<close>
  "getitem attrs name = (case map_of attrs name of None \<Rightarrow> VNone | Some v \<Rightarrow> v)"

definition setitem :: "(string \<times> pyval) list \<Rightarrow> string \<Rightarrow> pyval \<Rightarrow> (string \<times> pyval) list" where
  \<comment> \<open>\<^verbatim>\<open>__setitem__\<close>: \<^verbatim>\<open>setattr(self, name, value)\<close>\<close>
  "setitem attrs name v = AList.update name v attrs"

definition title_of :: "string \<Rightarrow> string" where
  \<comment> \<open>\<^verbatim>\<open>name.replace('_', ' ')\<close>\<close>
  "title_of name = map (\<lambda>c. if c = CHR ''_'' then CHR '' '' else c) name"

section \<open>Building a record from lines (\<^verbatim>\<open>IMixin\<close>)\<close>

fun str_find :: "string \<Rightarrow> char \<Rightarrow> int" where
  \<comment> \<open>\<^verbatim>\<open>line.find(c)\<close>: the index of the first occurrence, or \<open>- 1\<close>\<close>
  "str_find [] c = - 1"
| "str_find (x # xs) c =
     (if x = c then 0 else (let p = str_find xs c in if p < 0 then - 1 else p + 1))"

definition from_line :: "vtype \<Rightarrow> string \<Rightarrow> pyerr + pyval" where
  "from_line vtype line =
     (let p = str_find line CHR '':''
      in if p < 0 then Inr (VStr ''N/A'')
         else
           let val_s = strip (drop (nat (p + 1)) line)
           in if vtype = T_int \<or> vtype = T_float
              then str_to_num (regex_find val_s digits_dots)
              else Inr (VStr val_s))"

text \<open>
  \<^verbatim>\<open>from_lines\<close> creates the instance and runs over the annotations of the class;
  \<open>from_lines_loop\<close> is that loop, with the attributes set so far. For a class that
  declares no field the lookup of \<^verbatim>\<open>obj.__annotations__\<close> raises \<^verbatim>\<open>AttributeError\<close>.
\<close>

function from_lines :: "(string \<times> vtype) list \<Rightarrow> string list \<Rightarrow> pyerr + pyval"
  and from_lines_loop ::
    "(string \<times> vtype) list \<Rightarrow> string list \<Rightarrow> (string \<times> pyval) list \<Rightarrow> pyerr + (string \<times> pyval) list"
where
  "from_lines cls lines =
     (if cls = [] then Inl AttributeError
      else case from_lines_loop cls lines [] of Inl e \<Rightarrow> Inl e | Inr obj \<Rightarrow> Inr (VObj cls obj))"
| "from_lines_loop [] lines obj = Inr obj"
| "from_lines_loop ((name, vtype) # rest) lines obj =
     (let title = title_of name
      in case vtype of
           T_class sub \<Rightarrow>
             (let section = lines_find_section lines title
              in case from_lines sub section of
                   Inl e \<Rightarrow> Inl e
                 | Inr v \<Rightarrow> from_lines_loop rest lines (setitem obj name v))
         | _ \<Rightarrow>
             (let line = lines_find_line lines title
              in case from_line vtype line of
                   Inl e \<Rightarrow> Inl e
                 | Inr v \<Rightarrow> from_lines_loop rest lines (setitem obj name v)))"
  by pat_completeness auto
termination
  by (relation "measure (\<lambda>x. case x of
        Inl (cls, lines) \<Rightarrow> 2 * size_list (size_prod (\<lambda>_. 0) size) cls + 1
      | Inr (fs, lines, obj) \<Rightarrow> 2 * size_list (size_prod (\<lambda>_. 0) size) fs)") auto

section \<open>Rendering a record (\<^verbatim>\<open>OMixin\<close>)\<close>

text \<open>
  \<^verbatim>\<open>to_dict\<close> is a method of the classes deriving from \<^verbatim>\<open>OMixin\<close>: calling it on a
  value that is not such an object raises \<^verbatim>\<open>AttributeError\<close>, and so does the lookup
  of \<^verbatim>\<open>self.__annotations__\<close> on an object without annotations. \<open>to_dict_loop\<close> is
  the loop over the annotations, with the dictionary \<^verbatim>\<open>data\<close> built so far.
\<close>

function to_dict :: "pyval \<Rightarrow> pyerr + pyval"
  and to_dict_loop ::
    "(string \<times> vtype) list \<Rightarrow> (string \<times> pyval) list \<Rightarrow> (string \<times> pyval) list \<Rightarrow> pyerr + (string \<times> pyval) list"
where
  "to_dict (VObj cls attrs) =
     (if cls = [] then Inl AttributeError
      else case to_dict_loop cls attrs [] of Inl e \<Rightarrow> Inl e | Inr data \<Rightarrow> Inr (VDict data))"
| "to_dict (VFacade cls attrs) =
     (if cls = [] then Inl AttributeError
      else case to_dict_loop cls attrs [] of Inl e \<Rightarrow> Inl e | Inr data \<Rightarrow> Inr (VDict data))"
| "to_dict (VStr s) = Inl AttributeError"
| "to_dict (VInt i) = Inl AttributeError"
| "to_dict (VFloat f) = Inl AttributeError"
| "to_dict VNone = Inl AttributeError"
| "to_dict (VDict d) = Inl AttributeError"
| "to_dict_loop [] attrs data = Inr data"
| "to_dict_loop ((name, vtype) # rest) attrs data =
     (if map_of data name \<noteq> None then to_dict_loop rest attrs data
      else
        case map_of attrs name of
          None \<Rightarrow>
            (case vtype of
               T_class sub \<Rightarrow> Inl AttributeError
             | _ \<Rightarrow> to_dict_loop rest attrs (AList.update (title_of name) VNone data))
        | Some v \<Rightarrow>
            if v = VStr ''N/A'' then to_dict_loop rest attrs data
            else
              case vtype of
                T_class sub \<Rightarrow>
                  (case to_dict v of
                     Inl e \<Rightarrow> Inl e
                   | Inr d \<Rightarrow> to_dict_loop rest attrs (AList.update (title_of name) d data))
              | _ \<Rightarrow> to_dict_loop rest attrs (AList.update (title_of name) v data))"
  by pat_completeness auto
termination
proof -
  have member_smaller: "size v < size_list (size_prod (\<lambda>_. 0) size) attrs"
    if "map_of attrs name = Some v" for attrs :: "(string \<times> pyval) list" and name v
    using that by (induction attrs) (auto split: if_splits)
  show ?thesis
    by (relation "inv_image (less_than <*lex*> less_than) (\<lambda>x. case x of
          Inl v \<Rightarrow> (size v, 0)
        | Inr (fs, attrs, data) \<Rightarrow> (size_list (size_prod (\<lambda>_. 0) size) attrs, Suc (length fs)))")
       (auto dest: member_smaller)
qed

section \<open>Merging (\<^verbatim>\<open>merge_object_attrs\<close>)\<close>

definition vars_py :: "pyval \<Rightarrow> pyerr + (string \<times> pyval) list" where
  \<comment> \<open>\<^verbatim>\<open>vars(obj).items()\<close>: the attributes of a record; on an instance of a class
      deriving from \<^verbatim>\<open>OMixin\<close> and \<^verbatim>\<open>DMixin\<close> only, \<^verbatim>\<open>vars\<close> gives the method
      \<^verbatim>\<open>__dict__\<close> of \<^verbatim>\<open>OMixin\<close>, which has no \<^verbatim>\<open>items\<close>; other values have no
      \<^verbatim>\<open>__dict__\<close>\<close>
  "vars_py obj =
     (case obj of
        VObj cls attrs \<Rightarrow> Inr attrs
      | VFacade cls attrs \<Rightarrow> Inl AttributeError
      | _ \<Rightarrow> Inl TypeError)"

definition contains_py :: "pyval \<Rightarrow> string \<Rightarrow> pyerr + bool" where
  \<comment> \<open>\<^verbatim>\<open>name in obj\<close>: \<^verbatim>\<open>__contains__\<close> of \<^verbatim>\<open>DMixin\<close> on an object, the substring test
      on a string, the key test on a dictionary; numbers and \<^verbatim>\<open>None\<close> are not containers\<close>
  "contains_py obj name =
     (case obj of
        VObj cls attrs \<Rightarrow> Inr (hasattr attrs name)
      | VFacade cls attrs \<Rightarrow> Inr (hasattr attrs name)
      | VStr s \<Rightarrow> Inr (str_contains s name)
      | VDict d \<Rightarrow> Inr (map_of d name \<noteq> None)
      | _ \<Rightarrow> Inl TypeError)"

definition getitem_py :: "pyval \<Rightarrow> string \<Rightarrow> pyerr + pyval" where
  \<comment> \<open>\<^verbatim>\<open>obj[name]\<close>\<close>
  "getitem_py obj name =
     (case obj of
        VObj cls attrs \<Rightarrow> Inr (getitem attrs name)
      | VFacade cls attrs \<Rightarrow> Inr (getitem attrs name)
      | VDict d \<Rightarrow> (case map_of d name of None \<Rightarrow> Inl KeyError | Some v \<Rightarrow> Inr v)
      | _ \<Rightarrow> Inl TypeError)"

definition setitem_py :: "pyval \<Rightarrow> string \<Rightarrow> pyval \<Rightarrow> pyerr + pyval" where
  \<comment> \<open>\<^verbatim>\<open>obj[name] = value\<close>, giving the object after the assignment\<close>
  "setitem_py obj name v =
     (case obj of
        VObj cls attrs \<Rightarrow> Inr (VObj cls (setitem attrs name v))
      | VFacade cls attrs \<Rightarrow> Inr (VFacade cls (setitem attrs name v))
      | VDict d \<Rightarrow> Inr (VDict (AList.update name v d))
      | _ \<Rightarrow> Inl TypeError)"

definition deepcopy :: "pyval \<Rightarrow> pyval" where
  \<comment> \<open>values are trees without sharing, so a deep copy is the value itself\<close>
  "deepcopy v = v"

text \<open>
  \<^verbatim>\<open>merge_object_attrs\<close> changes \<^verbatim>\<open>objA\<close> in place and returns it; the model returns
  the changed \<^verbatim>\<open>objA\<close>. The recursive call changes the object that \<^verbatim>\<open>objA[name]\<close>
  refers to, which the model writes back under \<^verbatim>\<open>name\<close>. \<open>merge_loop\<close> is the loop
  over the items of \<^verbatim>\<open>vars(objB)\<close>.
\<close>

function merge_object_attrs :: "pyval \<Rightarrow> pyval \<Rightarrow> pyerr + pyval"
  and merge_loop :: "pyval \<Rightarrow> (string \<times> pyval) list \<Rightarrow> pyerr + pyval"
where
  "merge_object_attrs objA objB =
     (case vars_py objB of
        Inl e \<Rightarrow> Inl e
      | Inr items \<Rightarrow> merge_loop objA items)"
| "merge_loop objA [] = Inr objA"
| "merge_loop objA ((name, v) # rest) =
     (case contains_py objA name of
        Inl e \<Rightarrow> Inl e
      | Inr False \<Rightarrow>
          (case setitem_py objA name (deepcopy v) of
             Inl e \<Rightarrow> Inl e
           | Inr objA' \<Rightarrow> merge_loop objA' rest)
      | Inr True \<Rightarrow>
          (case getitem_py objA name of
             Inl e \<Rightarrow> Inl e
           | Inr sub \<Rightarrow>
               (case merge_object_attrs sub (deepcopy v) of
                  Inl e \<Rightarrow> Inl e
                | Inr sub' \<Rightarrow>
                    (case setitem_py objA name sub' of
                       Inl e \<Rightarrow> Inl e
                     | Inr objA' \<Rightarrow> merge_loop objA' rest))))"
  by pat_completeness auto
termination
  by (relation "measure (\<lambda>x. case x of
        Inl (objA, objB) \<Rightarrow> size objB
      | Inr (objA, items) \<Rightarrow> size_list (size_prod (\<lambda>_. 0) size) items)")
     (auto simp: deepcopy_def vars_py_def split: pyval.splits)

section \<open>Listing the devices (\<^verbatim>\<open>NVSMI.list_gpus\<close>)\<close>




section \<open>Well-formed classes and the shape of records\<close>

text \<open>
  The annotations of a class are a Python \<^verbatim>\<open>dict\<close> whose keys are identifiers: the
  field names of a class are distinct and contain no space, and so for the nested
  classes (\<open>wf_fields\<close>). A class from which a record can be built declares at least
  one field, and so do its nested classes (\<open>wf_cls\<close>).
\<close>

function wf_fields :: "(string \<times> vtype) list \<Rightarrow> bool" where
  "wf_fields [] = True"
| "wf_fields ((name, vtype) # rest) =
     (name \<notin> fst ` set rest \<and> CHR '' '' \<notin> set name
      \<and> (case vtype of T_class sub \<Rightarrow> sub \<noteq> [] \<and> wf_fields sub | _ \<Rightarrow> True)
      \<and> wf_fields rest)"
  by pat_completeness auto
termination
  by (relation "measure (size_list (size_prod (\<lambda>_. 0) size))") auto

definition wf_cls :: "(string \<times> vtype) list \<Rightarrow> bool" where
  "wf_cls cls = (cls \<noteq> [] \<and> wf_fields cls)"

definition is_leaf :: "pyval \<Rightarrow> bool" where
  \<comment> \<open>a string or a number\<close>
  "is_leaf v = (case v of VStr s \<Rightarrow> True | VInt i \<Rightarrow> True | VFloat f \<Rightarrow> True | _ \<Rightarrow> False)"

text \<open>
  \<open>fields_built cls attrs\<close>: every field that \<open>cls\<close> declares has an entry in \<open>attrs\<close>,
  a leaf for a primitive field and, for a nested field, an instance of the nested
  class that is built in turn. \<open>fields_absent cls attrs\<close>: moreover every leaf is the
  string \<^verbatim>\<open>'N/A'\<close>.
\<close>

function fields_built :: "(string \<times> vtype) list \<Rightarrow> (string \<times> pyval) list \<Rightarrow> bool" where
  "fields_built [] attrs = True"
| "fields_built ((name, vtype) # rest) attrs =
     ((case map_of attrs name of
         None \<Rightarrow> False
       | Some v \<Rightarrow>
           (case vtype of
              T_class sub \<Rightarrow>
                (case v of VObj cls' attrs' \<Rightarrow> cls' = sub \<and> fields_built sub attrs' | _ \<Rightarrow> False)
            | _ \<Rightarrow> is_leaf v))
      \<and> fields_built rest attrs)"
  by pat_completeness auto
termination
  by (relation "measure (\<lambda>(cls, attrs). size_list (size_prod (\<lambda>_. 0) size) cls)") auto


text \<open>
  Two notions for stating the properties: the value that one round of the loop of
  \<^verbatim>\<open>from_lines\<close> computes for a field, and the entry that \<^verbatim>\<open>to_dict\<close> makes for a
  field.
\<close>

definition field_value :: "string list \<Rightarrow> string \<Rightarrow> vtype \<Rightarrow> pyerr + pyval" where
  \<comment> \<open>what one round of the loop of \<^verbatim>\<open>from_lines\<close> computes for the field \<open>name\<close>\<close>
  "field_value lines name vtype =
     (case vtype of
        T_class sub \<Rightarrow> from_lines sub (lines_find_section lines (title_of name))
      | _ \<Rightarrow> from_line vtype (lines_find_line lines (title_of name)))"

definition rendered :: "(string \<times> pyval) list \<Rightarrow> string \<Rightarrow> vtype \<Rightarrow> pyval option" where
  \<comment> \<open>the entry of \<^verbatim>\<open>to_dict\<close> for a field that is set, if it makes one\<close>
  "rendered attrs name vtype =
     (case map_of attrs name of
        None \<Rightarrow> None
      | Some v \<Rightarrow>
          if v = VStr ''N/A'' then None
          else (case vtype of
                  T_class sub \<Rightarrow> (case to_dict v of Inl e \<Rightarrow> None | Inr d \<Rightarrow> Some d)
                | _ \<Rightarrow> Some v))"

section \<open>Number coercion\<close>

lemma trunc_eq_iff:
  "(q = of_int (if 0 \<le> q then \<lfloor>q\<rfloor> else - \<lfloor>- q\<rfloor>)) = (q \<in> \<int>)" for q :: rat
proof
  assume "q = of_int (if 0 \<le> q then \<lfloor>q\<rfloor> else - \<lfloor>- q\<rfloor>)"
  then show "q \<in> \<int>" by (metis Ints_of_int)
next
  assume "q \<in> \<int>"
  then obtain i where "q = of_int i" by (auto elim: Ints_cases)
  then show "q = of_int (if 0 \<le> q then \<lfloor>q\<rfloor> else - \<lfloor>- q\<rfloor>)" by simp
qed

lemma trunc_int: "q \<in> \<int> \<Longrightarrow> (if 0 \<le> q then \<lfloor>q\<rfloor> else - \<lfloor>- q\<rfloor>) = \<lfloor>q\<rfloor>" for q :: rat
  by (auto elim!: Ints_cases)

lemma str_to_num_cases:
  "str_to_num s =
     Inr (case float_py s of
            Inl e \<Rightarrow> VInt (- 1)
          | Inr (Fin q) \<Rightarrow> if q \<in> \<int> then VInt \<lfloor>q\<rfloor> else VFloat (Fin q)
          | Inr NegZero \<Rightarrow> VInt 0
          | Inr PosInf \<Rightarrow> VInt (- 1)
          | Inr NegInf \<Rightarrow> VInt (- 1)
          | Inr NaN \<Rightarrow> VInt (- 1))"
  by (simp add: str_to_num_def str_to_num_try_def int_of_float_def float_eq_int_def
      trunc_eq_iff trunc_int split: sum.split pyfloat.split)

lemma str_to_num_total: "\<exists>v. str_to_num s = Inr v"
  by (simp add: str_to_num_def split: sum.split)

lemma bitlen_numeral: "bitlen (numeral k) = Suc (bitlen (numeral k div 2))"
  by (subst bitlen.simps) simp

lemma bitlen_0: "bitlen 0 = 0"
  by (simp add: bitlen.simps)

lemma bitlen_1: "bitlen (Suc 0) = 1"
  by (simp add: bitlen.simps)

lemmas round_defs =
  round_double_def floor_log2_def round_half_even_def pow2_def bitlen_numeral bitlen_0 bitlen_1
  Let_def

lemma parse_decimal_42_0: "parse_decimal ''42.0'' = Some (420, - 1)"
  by code_simp

lemma parse_decimal_3_5: "parse_decimal ''3.5'' = Some (35, - 1)"
  by code_simp

lemma float_py_42_0: "float_py ''42.0'' = Inr (Fin 42)"
  by (simp add: float_py_def parse_decimal_42_0 split_sign_def lower_def float_space_def round_defs)

lemma float_py_3_5: "float_py ''3.5'' = Inr (Fin (7 / 2))"
  by (simp add: float_py_def parse_decimal_3_5 split_sign_def lower_def float_space_def round_defs)

lemma float_py_abc: "float_py ''abc'' = Inl ValueError"
  by code_simp

lemma float_py_inf: "float_py ''inf'' = Inr PosInf"
  by code_simp

lemma float_py_minus_inf: "float_py ''-inf'' = Inr NegInf"
  by code_simp

lemma float_py_nan: "float_py ''nan'' = Inr NaN"
  by code_simp

text \<open>
  C7, as the specification states it: \<^verbatim>\<open>str_to_num\<close> parses its argument as a float and
  yields an integer when the value equals its truncation, a float otherwise, and \<open>- 1\<close>
  when parsing fails. The text \<^verbatim>\<open>inf\<close> parses, as the infinity, which has no
  truncation; the result is not a float but \<open>- 1\<close>.
\<close>

theorem str_to_num_inf_is_no_float:
  "float_py ''inf'' = Inr PosInf \<and> int_of_float PosInf = Inl OverflowError
   \<and> str_to_num ''inf'' \<noteq> Inr (VFloat PosInf) \<and> str_to_num ''inf'' = Inr (VInt (- 1))"
  by (simp add: str_to_num_cases float_py_inf int_of_float_def)

text \<open>
  C7, amended: \<^verbatim>\<open>str_to_num\<close> parses its argument as a float. When parsing fails, and
  also when the parsed value is an infinity or a NaN, the result is \<open>- 1\<close>. For a finite
  value the result is the integer when the value is integral and the float otherwise.
  In particular \<^verbatim>\<open>"42.0"\<close> gives the integer 42, \<^verbatim>\<open>"3.5"\<close> the float 3.5 and
  \<^verbatim>\<open>"abc"\<close> gives \<open>- 1\<close>.
\<close>

theorem str_to_num_value:
  "str_to_num s =
     Inr (case float_py s of
            Inl e \<Rightarrow> VInt (- 1)
          | Inr (Fin q) \<Rightarrow> if q \<in> \<int> then VInt \<lfloor>q\<rfloor> else VFloat (Fin q)
          | Inr NegZero \<Rightarrow> VInt 0
          | Inr PosInf \<Rightarrow> VInt (- 1)
          | Inr NegInf \<Rightarrow> VInt (- 1)
          | Inr NaN \<Rightarrow> VInt (- 1))
   \<and> str_to_num ''42.0'' = Inr (VInt 42)
   \<and> str_to_num ''3.5'' = Inr (VFloat (Fin (7 / 2)))
   \<and> str_to_num ''abc'' = Inr (VInt (- 1))"
proof -
  have "str_to_num ''42.0'' = Inr (VInt 42)"
    by (simp add: str_to_num_cases float_py_42_0)
  moreover have "str_to_num ''3.5'' = Inr (VFloat (Fin (7 / 2)))"
    by (simp add: str_to_num_cases float_py_3_5 flip: of_int_floor_cancel)
  moreover have "str_to_num ''abc'' = Inr (VInt (- 1))"
    by (simp add: str_to_num_cases float_py_abc)
  ultimately show ?thesis
    using str_to_num_cases [of s] by simp
qed

text \<open>
  C10: \<^verbatim>\<open>str_to_num\<close> returns a value for every string and never raises. The texts
  \<^verbatim>\<open>inf\<close>, \<^verbatim>\<open>-inf\<close> and \<^verbatim>\<open>nan\<close> parse as floats, the conversion of the float to an
  integer raises, and the result is \<open>- 1\<close>.
\<close>

theorem str_to_num_never_raises:
  "(\<exists>v. str_to_num s = Inr v)
   \<and> float_py ''inf'' = Inr PosInf \<and> int_of_float PosInf = Inl OverflowError
   \<and> str_to_num ''inf'' = Inr (VInt (- 1))
   \<and> float_py ''-inf'' = Inr NegInf \<and> int_of_float NegInf = Inl OverflowError
   \<and> str_to_num ''-inf'' = Inr (VInt (- 1))
   \<and> float_py ''nan'' = Inr NaN \<and> int_of_float NaN = Inl ValueError
   \<and> str_to_num ''nan'' = Inr (VInt (- 1))"
  using str_to_num_total [of s]
  by (simp add: str_to_num_cases float_py_inf float_py_minus_inf float_py_nan int_of_float_def)

section \<open>Sections of a report\<close>

text \<open>
  C2: \<^verbatim>\<open>lines_find_section\<close> is to return the first section only, ending it at the
  first line that is not indented deeper than the header, even if that line matches
  the header again. The loop tests for the header before it tests \<^verbatim>\<open>found\<close>, so a
  second header right after the first section starts the section anew: here the
  result holds both sections instead of the first two lines.
\<close>

theorem lines_find_section_repeated_header:
  "lines_find_section
     [''Temperature'', ''  GPU Current Temp: 55'', ''Temperature'', ''  GPU Current Temp: 60'']
     ''Temperature''
   = [''Temperature'', ''  GPU Current Temp: 55'', ''Temperature'', ''  GPU Current Temp: 60'']"
  by code_simp

text \<open>
  C5: \<^verbatim>\<open>lines_find_section\<close> is to return the header line followed by exactly the run
  of lines indented deeper than it. A line of the run whose stripped text equals the
  label is taken for a new header and its indentation replaces the recorded one: here
  the third line, indented deeper than the header, is left out.
\<close>

theorem lines_find_section_nested_header:
  "lines_find_section [''Clocks'', ''    Clocks'', ''  Graphics: 100''] ''Clocks''
   = [''Clocks'', ''    Clocks'']"
  by code_simp

section \<open>Merging two records\<close>

text \<open>
  C1: where \<^verbatim>\<open>dst\<close> already has a leaf of a name that \<^verbatim>\<open>src\<close> has too, the merge is to
  keep the value of \<^verbatim>\<open>dst\<close>. \<^verbatim>\<open>merge_object_attrs\<close> recurses on the two leaves
  instead, and \<^verbatim>\<open>vars\<close> of a string raises \<^verbatim>\<open>TypeError\<close>.
\<close>

theorem merge_object_attrs_leaf_collision:
  "merge_object_attrs (VObj [(''X'', T_str)] [(''X'', VStr ''a'')])
     (VObj [(''X'', T_str)] [(''X'', VStr ''b'')])
   = Inl TypeError"
  by (simp add: vars_py_def contains_py_def hasattr_def getitem_py_def getitem_def deepcopy_def)

section \<open>Building a record\<close>

declare from_lines.simps [simp del]

lemma str_to_num_leaf: "\<exists>v. str_to_num s = Inr v \<and> is_leaf v"
  by (simp add: str_to_num_cases is_leaf_def split: sum.split pyfloat.split)

lemma from_line_leaf: "\<exists>v. from_line vtype line = Inr v \<and> is_leaf v"
  using str_to_num_leaf by (simp add: from_line_def Let_def is_leaf_def)

lemma from_lines_loop_Cons:
  "from_lines_loop ((name, vtype) # rest) lines obj =
     (case field_value lines name vtype of
        Inl e \<Rightarrow> Inl e
      | Inr v \<Rightarrow> from_lines_loop rest lines (setitem obj name v))"
  by (cases vtype) (simp_all add: field_value_def Let_def from_lines_loop.simps(2))

declare from_lines_loop.simps(2) [simp del]

lemma wf_fields_iff:
  "wf_fields fs =
     (distinct (map fst fs) \<and>
      (\<forall>(n, t) \<in> set fs. CHR '' '' \<notin> set n \<and> (case t of T_class sub \<Rightarrow> wf_cls sub | _ \<Rightarrow> True)))"
proof (induction fs)
  case Nil
  show ?case by simp
next
  case (Cons f fs)
  obtain n t where f: "f = (n, t)" by (cases f)
  show ?case
    unfolding f using Cons.IH by (cases t) (auto simp: wf_cls_def)
qed

lemma wf_cls_iff:
  "wf_cls fs =
     (fs \<noteq> [] \<and> distinct (map fst fs) \<and>
      (\<forall>(n, t) \<in> set fs. CHR '' '' \<notin> set n \<and> (case t of T_class sub \<Rightarrow> wf_cls sub | _ \<Rightarrow> True)))"
  using wf_fields_iff [of fs] by (simp add: wf_cls_def [of fs])

lemma wf_cls_fields: "wf_cls cls \<Longrightarrow> wf_fields cls"
  by (simp add: wf_cls_def)

lemma wf_cls_nonempty: "wf_cls cls \<Longrightarrow> cls \<noteq> []"
  by (simp add: wf_cls_def)

lemma wf_cls_distinct: "wf_cls cls \<Longrightarrow> distinct (map fst cls)"
  by (simp add: wf_cls_iff)

lemma wf_cls_sub: "wf_cls cls \<Longrightarrow> (n, T_class sub) \<in> set cls \<Longrightarrow> wf_cls sub"
  by (auto simp: wf_cls_iff [of cls])

lemma wf_cls_no_space: "wf_cls cls \<Longrightarrow> (n, t) \<in> set cls \<Longrightarrow> CHR '' '' \<notin> set n"
  by (auto simp: wf_cls_iff [of cls])

lemma size_sub:
  "(n, T_class sub) \<in> set cls \<Longrightarrow>
     size_list (size_prod (\<lambda>_. 0) size) sub < size_list (size_prod (\<lambda>_. 0) size) cls"
  by (induction cls) auto

lemma from_lines_total:
  "wf_cls cls \<Longrightarrow> \<exists>attrs. from_lines cls lines = Inr (VObj cls attrs)"
  "wf_fields fs \<Longrightarrow> \<exists>attrs. from_lines_loop fs lines obj = Inr attrs"
proof (induction cls lines and fs lines obj rule: from_lines_from_lines_loop.induct)
  case (1 cls lines)
  then show ?case by (auto simp: from_lines.simps wf_cls_def)
next
  case (2 lines obj)
  then show ?case by simp
next
  case (3 name vtype rest lines obj)
  from "3.prems" have rest: "wf_fields rest" by simp
  show ?case
  proof (cases vtype)
    case (T_class sub)
    with "3.prems" have "wf_cls sub" by (simp add: wf_cls_def)
    with T_class 3 rest show ?thesis by (fastforce simp: Let_def from_lines_loop.simps(2))
  next
    case T_int
    obtain v where "from_line vtype (lines_find_line lines (title_of name)) = Inr v"
      using from_line_leaf by blast
    with T_int 3 rest show ?thesis by (auto simp: Let_def from_lines_loop.simps(2))
  next
    case T_float
    obtain v where "from_line vtype (lines_find_line lines (title_of name)) = Inr v"
      using from_line_leaf by blast
    with T_float 3 rest show ?thesis by (auto simp: Let_def from_lines_loop.simps(2))
  next
    case T_str
    obtain v where "from_line vtype (lines_find_line lines (title_of name)) = Inr v"
      using from_line_leaf by blast
    with T_str 3 rest show ?thesis by (auto simp: Let_def from_lines_loop.simps(2))
  next
    case (T_literal x)
    obtain v where "from_line vtype (lines_find_line lines (title_of name)) = Inr v"
      using from_line_leaf by blast
    with T_literal 3 rest show ?thesis by (auto simp: Let_def from_lines_loop.simps(2))
  qed
qed

lemma field_value_total:
  "(case vtype of T_class sub \<Rightarrow> wf_cls sub | _ \<Rightarrow> True) \<Longrightarrow> \<exists>v. field_value lines name vtype = Inr v"
  using from_lines_total(1) from_line_leaf
  by (cases vtype) (auto simp: field_value_def, blast+)

lemma map_of_setitem: "map_of (setitem obj name v) = (map_of obj)(name \<mapsto> v)"
  by (simp add: setitem_def update_conv')

lemma from_lines_loop_lookup:
  assumes "from_lines_loop fs lines obj = Inr attrs" and "wf_fields fs"
  shows "map_of attrs n =
           (case map_of fs n of
              None \<Rightarrow> map_of obj n
            | Some t \<Rightarrow> (case field_value lines n t of Inl e \<Rightarrow> None | Inr v \<Rightarrow> Some v))"
  using assms
proof (induction fs arbitrary: obj)
  case Nil
  then show ?case by simp
next
  case (Cons f fs)
  obtain name vtype where f: "f = (name, vtype)" by (cases f)
  from Cons.prems f have d: "wf_fields fs" and nin: "name \<notin> fst ` set fs"
    and sub: "case vtype of T_class sub \<Rightarrow> wf_cls sub | _ \<Rightarrow> True"
    by (auto simp: wf_cls_def split: vtype.splits)
  obtain v where v: "field_value lines name vtype = Inr v"
    using field_value_total [OF sub] by blast
  with Cons.prems f have loop: "from_lines_loop fs lines (setitem obj name v) = Inr attrs"
    by (simp add: from_lines_loop_Cons)
  from nin have none: "map_of fs name = None"
    by (simp add: map_of_eq_None_iff)
  show ?case
    using Cons.IH [OF loop d] f v none by (auto simp: map_of_setitem split: option.split)
qed

lemma from_lines_lookup:
  assumes "from_lines cls lines = Inr (VObj cls attrs)" and "wf_cls cls"
    and "(n, t) \<in> set cls"
  shows "\<exists>v. field_value lines n t = Inr v \<and> map_of attrs n = Some v"
proof -
  from assms(1) have loop: "from_lines_loop cls lines [] = Inr attrs"
    by (auto simp: from_lines.simps split: sum.splits if_splits)
  from assms(2,3) have "map_of cls n = Some t"
    by (simp add: wf_cls_distinct)
  moreover from assms(2,3) have "case t of T_class sub \<Rightarrow> wf_cls sub | _ \<Rightarrow> True"
    by (auto simp: wf_cls_iff [of cls])
  then obtain v where "field_value lines n t = Inr v"
    using field_value_total by blast
  ultimately show ?thesis
    using from_lines_loop_lookup [OF loop wf_cls_fields [OF assms(2)], of n] by auto
qed

lemma fields_built_iff:
  "fields_built fs attrs =
     (\<forall>(n, t) \<in> set fs. \<exists>v. map_of attrs n = Some v \<and>
        (case t of
           T_class sub \<Rightarrow> (\<exists>attrs'. v = VObj sub attrs' \<and> fields_built sub attrs')
         | _ \<Rightarrow> is_leaf v))"
proof (induction fs)
  case Nil
  show ?case by simp
next
  case (Cons f fs)
  obtain n t where f: "f = (n, t)" by (cases f)
  show ?case
    unfolding f using Cons.IH
    by (cases t) (auto split: option.splits pyval.splits)
qed


lemma from_lines_built:
  "wf_cls cls \<Longrightarrow> from_lines cls lines = Inr (VObj cls attrs) \<Longrightarrow> fields_built cls attrs"
proof (induction cls arbitrary: lines attrs
    rule: measure_induct_rule [where f = "size_list (size_prod (\<lambda>_. 0) size)"])
  case (less cls)
  have "\<exists>v. map_of attrs n = Some v \<and>
          (case t of
             T_class sub \<Rightarrow> (\<exists>attrs'. v = VObj sub attrs' \<and> fields_built sub attrs')
           | _ \<Rightarrow> is_leaf v)"
    if nt: "(n, t) \<in> set cls" for n t
  proof -
    obtain v where fv: "field_value lines n t = Inr v" and look: "map_of attrs n = Some v"
      using from_lines_lookup [OF less.prems(2) less.prems(1) nt] by blast
    show ?thesis
    proof (cases t)
      case (T_class sub)
      with nt have mem: "(n, T_class sub) \<in> set cls" by simp
      have wsub: "wf_cls sub"
        using less.prems(1) mem by (rule wf_cls_sub)
      obtain attrs' where a: "from_lines sub (lines_find_section lines (title_of n)) = Inr (VObj sub attrs')"
        using from_lines_total(1) [OF wsub] by blast
      have "fields_built sub attrs'"
        using size_sub [OF mem] wsub a by (rule less.IH)
      with fv look a T_class show ?thesis by (auto simp: field_value_def)
    next
      case T_int
      with fv look from_line_leaf [of t "lines_find_line lines (title_of n)"] show ?thesis
        by (auto simp: field_value_def)
    next
      case T_float
      with fv look from_line_leaf [of t "lines_find_line lines (title_of n)"] show ?thesis
        by (auto simp: field_value_def)
    next
      case T_str
      with fv look from_line_leaf [of t "lines_find_line lines (title_of n)"] show ?thesis
        by (auto simp: field_value_def)
    next
      case (T_literal x)
      with fv look from_line_leaf [of t "lines_find_line lines (title_of n)"] show ?thesis
        by (auto simp: field_value_def)
    qed
  qed
  then show ?case
    by (subst fields_built_iff) blast
qed


lemma from_line_Nil: "from_line vtype [] = Inr (VStr ''N/A'')"
  by (simp add: from_line_def)





section \<open>Rendering a record\<close>

lemma title_of_no_space: "CHR '' '' \<notin> set (title_of n) \<Longrightarrow> title_of n = n"
  unfolding title_of_def by (induction n) (auto split: if_splits)

lemma title_of_inj:
  "CHR '' '' \<notin> set a \<Longrightarrow> CHR '' '' \<notin> set b \<Longrightarrow> title_of a = title_of b \<Longrightarrow> a = b"
  unfolding title_of_def
proof (induction a arbitrary: b)
  case Nil
  then show ?case by simp
next
  case (Cons x a)
  then obtain y b' where b: "b = y # b'" by (cases b) auto
  with Cons.prems have "x = y" by (auto split: if_splits)
  moreover from Cons.IH [of b'] Cons.prems b have "a = b'" by auto
  ultimately show ?case using b by simp
qed

declare to_dict_loop.simps(2) [simp del]
declare to_dict.simps(1) [simp del]

lemma to_dict_loop_skip:
  "map_of data name = None \<Longrightarrow> map_of attrs name = Some (VStr ''N/A'') \<Longrightarrow>
     to_dict_loop ((name, vtype) # rest) attrs data = to_dict_loop rest attrs data"
  by (simp add: to_dict_loop.simps(2))

lemma to_dict_loop_store:
  "map_of data name = None \<Longrightarrow> rendered attrs name vtype = Some r \<Longrightarrow>
     to_dict_loop ((name, vtype) # rest) attrs data =
       to_dict_loop rest attrs (AList.update (title_of name) r data)"
  by (cases vtype)
     (auto simp: to_dict_loop.simps(2) rendered_def split: option.splits if_splits sum.splits)

lemma to_dict_loop_result:
  assumes "distinct (map fst fs)"
    and "\<forall>n \<in> fst ` set fs. CHR '' '' \<notin> set n"
    and "\<forall>n \<in> fst ` set fs. map_of data n = None"
    and "\<forall>(n, t) \<in> set fs. map_of attrs n = Some (VStr ''N/A'') \<or> rendered attrs n t \<noteq> None"
  shows "\<exists>data'. to_dict_loop fs attrs data = Inr data'
           \<and> (\<forall>(n, t) \<in> set fs. map_of data' (title_of n) =
                 (case rendered attrs n t of None \<Rightarrow> map_of data (title_of n) | Some r \<Rightarrow> Some r))
           \<and> (\<forall>k. k \<notin> title_of ` fst ` set fs \<longrightarrow> map_of data' k = map_of data k)"
  using assms
proof (induction fs arbitrary: data)
  case Nil
  then show ?case by simp
next
  case (Cons f fs)
  obtain n t where f: "f = (n, t)" by (cases f)
  from Cons.prems f have d: "distinct (map fst fs)" and nin: "n \<notin> fst ` set fs"
    and ns: "\<forall>m \<in> fst ` set fs. CHR '' '' \<notin> set m" and nsn: "CHR '' '' \<notin> set n"
    and dn: "map_of data n = None"
    and rest: "\<forall>(m, t) \<in> set fs. map_of attrs m = Some (VStr ''N/A'') \<or> rendered attrs m t \<noteq> None"
    by auto
  have title_fresh: "title_of n \<notin> title_of ` fst ` set fs"
  proof
    assume "title_of n \<in> title_of ` fst ` set fs"
    then obtain m where m: "m \<in> fst ` set fs" and eq: "title_of n = title_of m" by auto
    from title_of_inj [OF nsn _ eq] ns m have "n = m" by blast
    with nin m show False by simp
  qed
  have title_no_name: "title_of n \<notin> fst ` set fs"
  proof
    assume a: "title_of n \<in> fst ` set fs"
    with ns have "CHR '' '' \<notin> set (title_of n)" by blast
    then have "title_of n = n" by (rule title_of_no_space)
    with a nin show False by simp
  qed
  show ?case
  proof (cases "rendered attrs n t")
    case None
    with Cons.prems(4) f have na: "map_of attrs n = Some (VStr ''N/A'')" by auto
    have step: "to_dict_loop (f # fs) attrs data = to_dict_loop fs attrs data"
      unfolding f by (rule to_dict_loop_skip [OF dn na])
    from Cons.prems f have dk: "\<forall>m \<in> fst ` set fs. map_of data m = None" by auto
    from Cons.IH [OF d ns dk rest] obtain data' where
      r: "to_dict_loop fs attrs data = Inr data'"
      and a: "\<forall>(m, t) \<in> set fs. map_of data' (title_of m) =
                 (case rendered attrs m t of None \<Rightarrow> map_of data (title_of m) | Some r \<Rightarrow> Some r)"
      and b: "\<forall>k. k \<notin> title_of ` fst ` set fs \<longrightarrow> map_of data' k = map_of data k"
      by blast
    from b title_fresh have "map_of data' (title_of n) = map_of data (title_of n)" by blast
    with step r a b None f show ?thesis by auto
  next
    case (Some r)
    have step: "to_dict_loop (f # fs) attrs data =
        to_dict_loop fs attrs (AList.update (title_of n) r data)"
      unfolding f by (rule to_dict_loop_store [OF dn Some])
    let ?data1 = "AList.update (title_of n) r data"
    have dk: "\<forall>m \<in> fst ` set fs. map_of ?data1 m = None"
    proof
      fix m assume m: "m \<in> fst ` set fs"
      with title_no_name have "m \<noteq> title_of n" by blast
      moreover from Cons.prems(3) f m have "map_of data m = None" by auto
      ultimately show "map_of ?data1 m = None" by (simp add: update_conv')
    qed
    from Cons.IH [OF d ns dk rest] obtain data' where
      r: "to_dict_loop fs attrs ?data1 = Inr data'"
      and a: "\<forall>(m, t) \<in> set fs. map_of data' (title_of m) =
                 (case rendered attrs m t of None \<Rightarrow> map_of ?data1 (title_of m) | Some r \<Rightarrow> Some r)"
      and b: "\<forall>k. k \<notin> title_of ` fst ` set fs \<longrightarrow> map_of data' k = map_of ?data1 k"
      by blast
    from b title_fresh have here: "map_of data' (title_of n) = Some r"
      by (simp add: update_conv')
    have others: "map_of data' (title_of m) =
          (case rendered attrs m t' of None \<Rightarrow> map_of data (title_of m) | Some r \<Rightarrow> Some r)"
      if "(m, t') \<in> set fs" for m t'
    proof -
      from that have "title_of m \<in> title_of ` fst ` set fs" by force
      with title_fresh have "title_of m \<noteq> title_of n" by metis
      with a that show ?thesis by (auto simp: update_conv' split: option.splits)
    qed
    have outside: "map_of data' k = map_of data k" if "k \<notin> title_of ` fst ` set (f # fs)" for k
    proof -
      from that f have "k \<noteq> title_of n" and "k \<notin> title_of ` fst ` set fs" by auto
      with b show ?thesis by (simp add: update_conv')
    qed
    from step r here others outside Some f show ?thesis by auto
  qed
qed

lemma to_dict_built:
  "wf_cls cls \<Longrightarrow> fields_built cls attrs \<Longrightarrow>
     \<exists>data. to_dict (VObj cls attrs) = Inr (VDict data)
       \<and> (\<forall>(n, t) \<in> set cls. map_of data (title_of n) = rendered attrs n t)
       \<and> (\<forall>k. k \<notin> title_of ` fst ` set cls \<longrightarrow> map_of data k = None)"
proof (induction cls arbitrary: attrs
    rule: measure_induct_rule [where f = "size_list (size_prod (\<lambda>_. 0) size)"])
  case (less cls)
  have fields: "map_of attrs n = Some (VStr ''N/A'') \<or> rendered attrs n t \<noteq> None"
    if nt: "(n, t) \<in> set cls" for n t
  proof -
    from less.prems(2) nt obtain v where v: "map_of attrs n = Some v"
      and shape: "case t of
           T_class sub \<Rightarrow> (\<exists>attrs'. v = VObj sub attrs' \<and> fields_built sub attrs')
         | _ \<Rightarrow> is_leaf v"
      by (subst (asm) fields_built_iff) blast
    show ?thesis
    proof (cases t)
      case (T_class sub)
      with shape obtain attrs' where v': "v = VObj sub attrs'" and b: "fields_built sub attrs'"
        by auto
      from nt T_class have sub: "(n, T_class sub) \<in> set cls" by simp
      from less.IH [OF size_sub [OF sub] wf_cls_sub [OF less.prems(1) sub] b]
      obtain d where "to_dict v = Inr (VDict d)" using v' by blast
      with v v' T_class show ?thesis by (simp add: rendered_def)
    qed (use v in \<open>auto simp: rendered_def\<close>)
  qed
  have "distinct (map fst cls)" and "\<forall>n \<in> fst ` set cls. CHR '' '' \<notin> set n"
    using less.prems(1) by (auto simp: wf_cls_iff [of cls])
  moreover have "\<forall>n \<in> fst ` set cls. map_of ([] :: (string \<times> pyval) list) n = None"
    by simp
  moreover have "\<forall>(n, t) \<in> set cls. map_of attrs n = Some (VStr ''N/A'') \<or> rendered attrs n t \<noteq> None"
    using fields by blast
  ultimately obtain data where
    r: "to_dict_loop cls attrs [] = Inr data"
    and a: "\<forall>(n, t) \<in> set cls. map_of data (title_of n) =
              (case rendered attrs n t of None \<Rightarrow> map_of [] (title_of n) | Some r \<Rightarrow> Some r)"
    and b: "\<forall>k. k \<notin> title_of ` fst ` set cls \<longrightarrow> map_of data k = map_of [] k"
    using to_dict_loop_result [of cls "[]" attrs] by blast
  from a have "\<forall>(n, t) \<in> set cls. map_of data (title_of n) = rendered attrs n t"
    by (auto split: option.splits)
  with r b wf_cls_nonempty [OF less.prems(1)] show ?case by (auto simp: to_dict.simps(1))
qed

lemma str_contains_sublist: "str_contains line title = sublist title line"
  by (induction line) (auto simp: sublist_Cons_right)

lemma lines_find_line_find:
  "lines_find_line lines title =
     (case find (\<lambda>l. sublist title l) lines of None \<Rightarrow> [] | Some l \<Rightarrow> l)"
  by (induction lines) (auto simp: str_contains_sublist)

lemma str_find_neg: "(str_find line c < 0) = (c \<notin> set line)"
  by (induction line) (auto simp: Let_def)

lemma str_find_nonneg: "- 1 \<le> str_find line c"
  by (induction line) (auto simp: Let_def)

lemma str_find_drop:
  "c \<in> set line \<Longrightarrow> drop (nat (str_find line c + 1)) line = tl (dropWhile (\<lambda>x. x \<noteq> c) line)"
proof (induction line)
  case Nil
  then show ?case by simp
next
  case (Cons x xs)
  show ?case
  proof (cases "x = c")
    case True
    then show ?thesis by simp
  next
    case False
    with Cons.prems have in_xs: "c \<in> set xs" by simp
    then have "\<not> str_find xs c < 0" by (simp add: str_find_neg)
    then have "nat (str_find xs c + 1 + 1) = Suc (nat (str_find xs c + 1))" by simp
    with False Cons.IH [OF in_xs] \<open>\<not> str_find xs c < 0\<close> show ?thesis
      by (simp add: Let_def)
  qed
qed

lemma from_line_no_colon: "CHR '':'' \<notin> set line \<Longrightarrow> from_line vtype line = Inr (VStr ''N/A'')"
  by (simp add: from_line_def str_find_neg)

lemma from_line_colon:
  "CHR '':'' \<in> set line \<Longrightarrow>
     from_line vtype line =
       (let val_s = strip (tl (dropWhile (\<lambda>c. c \<noteq> CHR '':'') line))
        in if vtype = T_int \<or> vtype = T_float then str_to_num (regex_find val_s digits_dots)
           else Inr (VStr val_s))"
  by (simp add: from_line_def str_find_neg str_find_drop Let_def)

lemma re_search_plus:
  "re_search (RPlus p) s =
     (if \<exists>c \<in> set s. p c then Some (takeWhile p (dropWhile (\<lambda>c. \<not> p c) s), []) else None)"
proof (induction s)
  case Nil
  show ?case by simp
next
  case (Cons c cs)
  show ?case
  proof (cases "p c")
    case True
    let ?n = "length (takeWhile p cs)"
    have "rev [1 ..< Suc (Suc ?n)] = Suc ?n # rev [1 ..< Suc ?n]" by simp
    with True have "re_match (RPlus p) (c # cs) =
        ([], drop ?n cs) # map (\<lambda>k. ([], drop k (c # cs))) (rev [1 ..< Suc ?n])"
      by simp
    moreover have "take (length (c # cs) - length (drop ?n cs)) (c # cs) = c # takeWhile p cs"
    proof -
      have "?n \<le> length cs" by (rule length_takeWhile_le)
      then have "length (c # cs) - length (drop ?n cs) = Suc ?n" by simp
      moreover have "take ?n cs = takeWhile p cs" by (rule takeWhile_eq_take [symmetric])
      ultimately show ?thesis by simp
    qed
    ultimately show ?thesis using True by simp
  next
    case False
    then have "re_match (RPlus p) (c # cs) = []" by simp
    with False Cons.IH show ?thesis by simp
  qed
qed

lemma regex_find_digits_dots:
  "regex_find s digits_dots =
     takeWhile (\<lambda>c. isdigit c \<or> c = CHR ''.'') (dropWhile (\<lambda>c. \<not> (isdigit c \<or> c = CHR ''.'')) s)"
proof (cases "\<exists>c \<in> set s. isdigit c \<or> c = CHR ''.''")
  case True
  then have "re_search digits_dots s =
      Some (takeWhile (\<lambda>c. isdigit c \<or> c = CHR ''.'')
        (dropWhile (\<lambda>c. \<not> (isdigit c \<or> c = CHR ''.'')) s), [])"
    unfolding digits_dots_def re_search_plus by (rule if_P)
  then show ?thesis by (simp add: regex_find_def)
next
  case False
  then have none: "re_search digits_dots s = None"
    unfolding digits_dots_def re_search_plus by (rule if_not_P)
  from False have dw: "dropWhile (\<lambda>c. \<not> (isdigit c \<or> c = CHR ''.'')) s = []"
    by (induction s) auto
  show ?thesis unfolding regex_find_def none dw by simp
qed

lemma set_strip: "set (strip s) \<subseteq> set s"
proof -
  have "set (dropWhile isspace (rev (dropWhile isspace s))) \<subseteq> set (rev (dropWhile isspace s))"
    by (rule set_dropWhileD [THEN subsetI])
  also have "\<dots> \<subseteq> set s" using set_dropWhileD [of _ isspace s] by auto
  finally show ?thesis by (simp add: strip_def)
qed

lemma float_py_empty: "float_py [] = Inl ValueError"
  by code_simp

lemma str_to_num_empty: "str_to_num [] = Inr (VInt (- 1))"
  by (simp add: str_to_num_cases float_py_empty)

lemma regex_find_none:
  "\<forall>c \<in> set s. \<not> isdigit c \<and> c \<noteq> CHR ''.'' \<Longrightarrow> regex_find s digits_dots = []"
proof -
  assume a: "\<forall>c \<in> set s. \<not> isdigit c \<and> c \<noteq> CHR ''.''"
  then have dw: "dropWhile (\<lambda>c. \<not> (isdigit c \<or> c = CHR ''.'')) s = []"
    by (induction s) auto
  show ?thesis unfolding regex_find_digits_dots dw by simp
qed

text \<open>
  C6: for every record built by \<^verbatim>\<open>from_lines\<close> (of a class from which a record can be
  built: each class declares a field, with distinct field names without spaces, as
  identifiers are), \<^verbatim>\<open>to_dict\<close> returns a dictionary in which a leaf
  field equal to \<^verbatim>\<open>'N/A'\<close> has no entry, every other leaf stands under its title (the
  name with underscores replaced by spaces), and every nested record stands under its
  title as the dictionary that \<^verbatim>\<open>to_dict\<close> makes of it, also when that dictionary is
  empty; the dictionary has no other keys.
\<close>

theorem to_dict_of_built_record:
  assumes "wf_cls cls"
  shows "\<exists>attrs data. from_lines cls lines = Inr (VObj cls attrs)
     \<and> to_dict (VObj cls attrs) = Inr (VDict data)
     \<and> (\<forall>(name, vtype) \<in> set cls. \<exists>v. map_of attrs name = Some v \<and>
           (case vtype of
              T_class sub \<Rightarrow>
                (\<exists>d. to_dict v = Inr (VDict d) \<and> map_of data (title_of name) = Some (VDict d))
            | _ \<Rightarrow> map_of data (title_of name) = (if v = VStr ''N/A'' then None else Some v)))
     \<and> (\<forall>k. k \<notin> title_of ` fst ` set cls \<longrightarrow> map_of data k = None)"
proof -
  obtain attrs where a: "from_lines cls lines = Inr (VObj cls attrs)"
    using from_lines_total(1) [OF assms] by blast
  have built: "fields_built cls attrs"
    using assms a by (rule from_lines_built)
  obtain data where d: "to_dict (VObj cls attrs) = Inr (VDict data)"
    and r: "\<forall>(n, t) \<in> set cls. map_of data (title_of n) = rendered attrs n t"
    and o: "\<forall>k. k \<notin> title_of ` fst ` set cls \<longrightarrow> map_of data k = None"
    using to_dict_built [OF assms built] by blast
  have "\<exists>v. map_of attrs name = Some v \<and>
          (case vtype of
             T_class sub \<Rightarrow>
               (\<exists>d. to_dict v = Inr (VDict d) \<and> map_of data (title_of name) = Some (VDict d))
           | _ \<Rightarrow> map_of data (title_of name) = (if v = VStr ''N/A'' then None else Some v))"
    if nt: "(name, vtype) \<in> set cls" for name vtype
  proof -
    from built nt obtain v where v: "map_of attrs name = Some v"
      and shape: "case vtype of
           T_class sub \<Rightarrow> (\<exists>attrs'. v = VObj sub attrs' \<and> fields_built sub attrs')
         | _ \<Rightarrow> is_leaf v"
      by (subst (asm) fields_built_iff) blast
    from r nt have here: "map_of data (title_of name) = rendered attrs name vtype" by blast
    show ?thesis
    proof (cases vtype)
      case (T_class sub)
      with shape obtain attrs' where v': "v = VObj sub attrs'" and b: "fields_built sub attrs'"
        by auto
      from nt T_class have sub: "(name, T_class sub) \<in> set cls" by simp
      obtain d' where "to_dict v = Inr (VDict d')"
        using to_dict_built [OF wf_cls_sub [OF assms sub] b] v' by blast
      with v v' here T_class show ?thesis by (simp add: rendered_def)
    qed (use v here in \<open>auto simp: rendered_def\<close>)
  qed
  with a d o show ?thesis by blast
qed

theorem to_dict_of_built_record_witness:
  "wf_cls [(''Product_Name'', T_str), (''Fan_Speed'', T_int),
           (''Temperature'', T_class [(''GPU_Current_Temp'', T_int)])]
   \<and> (\<exists>attrs.
         from_lines [(''Product_Name'', T_str), (''Fan_Speed'', T_int),
                     (''Temperature'', T_class [(''GPU_Current_Temp'', T_int)])]
           [''    Product Name : RTX'']
         = Inr (VObj [(''Product_Name'', T_str), (''Fan_Speed'', T_int),
                      (''Temperature'', T_class [(''GPU_Current_Temp'', T_int)])] attrs)
         \<and> map_of attrs ''Fan_Speed'' = Some (VStr ''N/A'')
         \<and> to_dict (VObj [(''Product_Name'', T_str), (''Fan_Speed'', T_int),
                           (''Temperature'', T_class [(''GPU_Current_Temp'', T_int)])] attrs)
             = Inr (VDict [(''Product Name'', VStr ''RTX''), (''Temperature'', VDict [])]))"
proof -
  let ?cls = "[(''Product_Name'', T_str), (''Fan_Speed'', T_int),
               (''Temperature'', T_class [(''GPU_Current_Temp'', T_int)])]"
  let ?lines = "[''    Product Name : RTX'']"
  let ?attrs = "[(''Product_Name'', VStr ''RTX''), (''Fan_Speed'', VStr ''N/A''),
                 (''Temperature'', VObj [(''GPU_Current_Temp'', T_int)]
                    [(''GPU_Current_Temp'', VStr ''N/A'')])]"
  have wf: "wf_cls ?cls" by (simp add: wf_cls_def)
  have built: "from_lines ?cls ?lines = Inr (VObj ?cls ?attrs)" by code_simp
  have shown: "to_dict (VObj ?cls ?attrs)
      = Inr (VDict [(''Product Name'', VStr ''RTX''), (''Temperature'', VDict [])])"
    by code_simp
  from to_dict_of_built_record [OF wf, of ?lines] obtain attrs data
    where "from_lines ?cls ?lines = Inr (VObj ?cls attrs)"
      and "to_dict (VObj ?cls attrs) = Inr (VDict data)"
    by blast
  with built shown wf show ?thesis by simp
qed

section \<open>Primitive fields\<close>

lemma primitive_field_built:
  assumes "wf_cls cls" and "(name, vtype) \<in> set cls" and "\<forall>sub. vtype \<noteq> T_class sub"
  shows "\<exists>attrs data v. from_lines cls lines = Inr (VObj cls attrs)
     \<and> to_dict (VObj cls attrs) = Inr (VDict data)
     \<and> map_of attrs name = Some v
     \<and> from_line vtype (lines_find_line lines (title_of name)) = Inr v
     \<and> map_of data (title_of name) = (if v = VStr ''N/A'' then None else Some v)"
proof -
  obtain attrs where a: "from_lines cls lines = Inr (VObj cls attrs)"
    using from_lines_total(1) [OF assms(1)] by blast
  have built: "fields_built cls attrs"
    using assms(1) a by (rule from_lines_built)
  obtain data where d: "to_dict (VObj cls attrs) = Inr (VDict data)"
    and r: "\<forall>(n, t) \<in> set cls. map_of data (title_of n) = rendered attrs n t"
    using to_dict_built [OF assms(1) built] by blast
  obtain v where fv: "field_value lines name vtype = Inr v" and look: "map_of attrs name = Some v"
    using from_lines_lookup [OF a assms(1) assms(2)] by blast
  from fv assms(3) have line: "from_line vtype (lines_find_line lines (title_of name)) = Inr v"
    by (cases vtype) (simp_all add: field_value_def)
  from r assms(2) have "map_of data (title_of name) = rendered attrs name vtype" by blast
  with look assms(3) have "map_of data (title_of name) = (if v = VStr ''N/A'' then None else Some v)"
    by (cases vtype) (simp_all add: rendered_def)
  with a d look line show ?thesis by blast
qed

text \<open>
  C4: for a primitive field (of a class from which a record can be built: each class
  declares a field, with distinct field names without spaces), when no line contains
  the title as a substring, or the
  first such line has no colon, the built value is \<^verbatim>\<open>'N/A'\<close> and the title is absent
  from the rendered dictionary. Otherwise the text after the first colon is stripped;
  for \<^verbatim>\<open>int\<close> and \<^verbatim>\<open>float\<close> fields the value is \<^verbatim>\<open>str_to_num\<close> of what
  \<^verbatim>\<open>regex_find\<close> extracts from it, for the other fields (strings and unions of literals)
  it is the stripped text itself.
\<close>

theorem primitive_field_value:
  assumes "wf_cls cls" and "(name, vtype) \<in> set cls" and "\<forall>sub. vtype \<noteq> T_class sub"
  shows "\<exists>attrs data v. from_lines cls lines = Inr (VObj cls attrs)
     \<and> to_dict (VObj cls attrs) = Inr (VDict data)
     \<and> map_of attrs name = Some v
     \<and> (case find (\<lambda>l. sublist (title_of name) l) lines of
          None \<Rightarrow> v = VStr ''N/A'' \<and> map_of data (title_of name) = None
        | Some line \<Rightarrow>
            if CHR '':'' \<notin> set line then v = VStr ''N/A'' \<and> map_of data (title_of name) = None
            else
              (let val_s = strip (tl (dropWhile (\<lambda>c. c \<noteq> CHR '':'') line))
               in if vtype = T_int \<or> vtype = T_float
                  then str_to_num (regex_find val_s digits_dots) = Inr v
                  else v = VStr val_s))"
proof -
  obtain attrs data v where a: "from_lines cls lines = Inr (VObj cls attrs)"
    and d: "to_dict (VObj cls attrs) = Inr (VDict data)"
    and look: "map_of attrs name = Some v"
    and line: "from_line vtype (lines_find_line lines (title_of name)) = Inr v"
    and shown: "map_of data (title_of name) = (if v = VStr ''N/A'' then None else Some v)"
    using primitive_field_built [OF assms] by blast
  have "case find (\<lambda>l. sublist (title_of name) l) lines of
          None \<Rightarrow> v = VStr ''N/A'' \<and> map_of data (title_of name) = None
        | Some line \<Rightarrow>
            if CHR '':'' \<notin> set line then v = VStr ''N/A'' \<and> map_of data (title_of name) = None
            else
              (let val_s = strip (tl (dropWhile (\<lambda>c. c \<noteq> CHR '':'') line))
               in if vtype = T_int \<or> vtype = T_float
                  then str_to_num (regex_find val_s digits_dots) = Inr v
                  else v = VStr val_s)"
  proof (cases "find (\<lambda>l. sublist (title_of name) l) lines")
    case None
    then have "lines_find_line lines (title_of name) = []"
      by (simp add: lines_find_line_find)
    with line have "v = VStr ''N/A''" by (simp add: from_line_Nil)
    with shown None show ?thesis by simp
  next
    case (Some l)
    then have l: "lines_find_line lines (title_of name) = l"
      by (simp add: lines_find_line_find)
    show ?thesis
    proof (cases "CHR '':'' \<in> set l")
      case False
      with line l have "v = VStr ''N/A''" by (simp add: from_line_no_colon)
      with shown Some False show ?thesis by simp
    next
      case True
      from line l have "from_line vtype l = Inr v" by simp
      with True Some show ?thesis
        by (auto simp: from_line_colon Let_def)
    qed
  qed
  with a d look show ?thesis by blast
qed

theorem primitive_field_value_witness:
  "wf_cls [(''Product_Name'', T_str), (''Fan_Speed'', T_int)]
   \<and> find (\<lambda>l. sublist (title_of ''Product_Name'') l) [''    Product Name : RTX 9999 '', ''    Fan Speed''] =
       Some ''    Product Name : RTX 9999 ''
   \<and> (\<exists>attrs data.
         from_lines [(''Product_Name'', T_str), (''Fan_Speed'', T_int)]
           [''    Product Name : RTX 9999 '', ''    Fan Speed'']
         = Inr (VObj [(''Product_Name'', T_str), (''Fan_Speed'', T_int)] attrs)
         \<and> to_dict (VObj [(''Product_Name'', T_str), (''Fan_Speed'', T_int)] attrs) = Inr (VDict data)
         \<and> map_of attrs ''Product_Name'' = Some (VStr ''RTX 9999'')
         \<and> map_of data ''Product Name'' = Some (VStr ''RTX 9999'')
         \<and> map_of attrs ''Fan_Speed'' = Some (VStr ''N/A'')
         \<and> map_of data ''Fan Speed'' = None)"
proof -
  let ?cls = "[(''Product_Name'', T_str), (''Fan_Speed'', T_int)]"
  let ?lines = "[''    Product Name : RTX 9999 '', ''    Fan Speed'']"
  have wf: "wf_cls ?cls" by (simp add: wf_cls_def)
  have f1: "find (\<lambda>l. sublist (title_of ''Product_Name'') l) ?lines = Some ''    Product Name : RTX 9999 ''"
    by code_simp
  have f2: "find (\<lambda>l. sublist (title_of ''Fan_Speed'') l) ?lines = Some ''    Fan Speed''"
    by code_simp
  have s1: "strip (tl (dropWhile (\<lambda>c. c \<noteq> CHR '':'') ''    Product Name : RTX 9999 '')) = ''RTX 9999''"
    by code_simp
  have t1: "title_of ''Product_Name'' = ''Product Name''" and t2: "title_of ''Fan_Speed'' = ''Fan Speed''"
    by (simp_all add: title_of_def)
  have built: "from_lines ?cls ?lines
      = Inr (VObj ?cls [(''Product_Name'', VStr ''RTX 9999''), (''Fan_Speed'', VStr ''N/A'')])"
    by code_simp
  have shown: "to_dict (VObj ?cls [(''Product_Name'', VStr ''RTX 9999''), (''Fan_Speed'', VStr ''N/A'')])
      = Inr (VDict [(''Product Name'', VStr ''RTX 9999'')])"
    by code_simp
  have "\<exists>v. map_of [(''Product_Name'', VStr ''RTX 9999''), (''Fan_Speed'', VStr ''N/A'')] ''Product_Name'' = Some v
      \<and> v = VStr ''RTX 9999''"
    using primitive_field_value [of ?cls "''Product_Name''" T_str ?lines] wf f1 s1
    by (simp add: built)
  with wf f1 built shown t1 t2 show ?thesis by simp
qed

text \<open>
  C9, as the specification states it: a numeric field whose text after the colon holds
  no digit and no dot is rendered as \<open>- 1\<close>, unlike a string field with the same report
  text, which is rendered as absent. With the text \<^verbatim>\<open>Off\<close> the \<^verbatim>\<open>int\<close> field is built
  and rendered as \<open>- 1\<close>, but the string field is built as \<^verbatim>\<open>'Off'\<close> and rendered under
  its title.
\<close>

theorem string_field_without_number_is_rendered:
  "from_lines [(''Fan_Speed'', T_int), (''Product_Name'', T_str)]
     [''    Fan Speed : Off'', ''    Product Name : Off'']
     = Inr (VObj [(''Fan_Speed'', T_int), (''Product_Name'', T_str)]
         [(''Fan_Speed'', VInt (- 1)), (''Product_Name'', VStr ''Off'')])
   \<and> to_dict (VObj [(''Fan_Speed'', T_int), (''Product_Name'', T_str)]
         [(''Fan_Speed'', VInt (- 1)), (''Product_Name'', VStr ''Off'')])
     = Inr (VDict [(''Fan Speed'', VInt (- 1)), (''Product Name'', VStr ''Off'')])"
  by code_simp

text \<open>
  C9, amended: when the line of an \<^verbatim>\<open>int\<close> or \<^verbatim>\<open>float\<close> field has a colon and the text
  after it holds no digit and no dot, the built value is \<open>- 1\<close> and the rendered
  dictionary has \<open>- 1\<close> under the title; whereas a string field (or a field of string
  literals) whose line has a colon is built as the stripped text after it, and so is
  absent from the rendered dictionary only when that text is \<^verbatim>\<open>N/A\<close>: any other text
  stands under the title.
\<close>

theorem numeric_field_without_number:
  assumes "wf_cls cls" and "(name, vtype) \<in> set cls" and "vtype = T_int \<or> vtype = T_float"
    and "find (\<lambda>l. sublist (title_of name) l) lines = Some line"
    and "CHR '':'' \<in> set line"
    and "\<forall>c \<in> set (tl (dropWhile (\<lambda>c. c \<noteq> CHR '':'') line)). \<not> isdigit c \<and> c \<noteq> CHR ''.''"
  shows "\<exists>attrs data. from_lines cls lines = Inr (VObj cls attrs)
     \<and> to_dict (VObj cls attrs) = Inr (VDict data)
     \<and> map_of attrs name = Some (VInt (- 1))
     \<and> map_of data (title_of name) = Some (VInt (- 1))
     \<and> (\<forall>sname stype sline.
           (sname, stype) \<in> set cls \<and> (stype = T_str \<or> (\<exists>allowed. stype = T_literal allowed))
           \<and> find (\<lambda>l. sublist (title_of sname) l) lines = Some sline
           \<and> CHR '':'' \<in> set sline
           \<longrightarrow> map_of attrs sname = Some (VStr (strip (tl (dropWhile (\<lambda>c. c \<noteq> CHR '':'') sline))))
               \<and> map_of data (title_of sname) =
                   (if strip (tl (dropWhile (\<lambda>c. c \<noteq> CHR '':'') sline)) = ''N/A'' then None
                    else Some (VStr (strip (tl (dropWhile (\<lambda>c. c \<noteq> CHR '':'') sline))))))"
proof -
  obtain attrs where a: "from_lines cls lines = Inr (VObj cls attrs)"
    using from_lines_total(1) [OF assms(1)] by blast
  have built: "fields_built cls attrs"
    using assms(1) a by (rule from_lines_built)
  obtain data where d: "to_dict (VObj cls attrs) = Inr (VDict data)"
    and r: "\<forall>(n, t) \<in> set cls. map_of data (title_of n) = rendered attrs n t"
    using to_dict_built [OF assms(1) built] by blast
  have numeric: "map_of attrs name = Some (VInt (- 1)) \<and> map_of data (title_of name) = Some (VInt (- 1))"
  proof -
    obtain v where fv: "field_value lines name vtype = Inr v" and look: "map_of attrs name = Some v"
      using from_lines_lookup [OF a assms(1) assms(2)] by blast
    have l: "lines_find_line lines (title_of name) = line"
      using assms(4) by (simp add: lines_find_line_find)
    let ?val_s = "strip (tl (dropWhile (\<lambda>c. c \<noteq> CHR '':'') line))"
    have "\<forall>c \<in> set ?val_s. \<not> isdigit c \<and> c \<noteq> CHR ''.''"
      using assms(6) set_strip by blast
    then have "regex_find ?val_s digits_dots = []"
      by (rule regex_find_none)
    with assms(3,5) have "from_line vtype line = Inr (VInt (- 1))"
      by (auto simp: from_line_colon str_to_num_empty)
    with fv l assms(3) have v: "v = VInt (- 1)"
      by (auto simp: field_value_def)
    from r assms(2) have "map_of data (title_of name) = rendered attrs name vtype" by blast
    with look v assms(3) show ?thesis by (auto simp: rendered_def)
  qed
  have textual: "map_of attrs sname = Some (VStr (strip (tl (dropWhile (\<lambda>c. c \<noteq> CHR '':'') sline))))
      \<and> map_of data (title_of sname) =
          (if strip (tl (dropWhile (\<lambda>c. c \<noteq> CHR '':'') sline)) = ''N/A'' then None
           else Some (VStr (strip (tl (dropWhile (\<lambda>c. c \<noteq> CHR '':'') sline)))))"
    if st: "(sname, stype) \<in> set cls" and ty: "stype = T_str \<or> (\<exists>allowed. stype = T_literal allowed)"
      and sl: "find (\<lambda>l. sublist (title_of sname) l) lines = Some sline"
      and colon: "CHR '':'' \<in> set sline"
    for sname stype sline
  proof -
    let ?val_s = "strip (tl (dropWhile (\<lambda>c. c \<noteq> CHR '':'') sline))"
    obtain v where fv: "field_value lines sname stype = Inr v" and look: "map_of attrs sname = Some v"
      using from_lines_lookup [OF a assms(1) st] by blast
    have l: "lines_find_line lines (title_of sname) = sline"
      using sl by (simp add: lines_find_line_find)
    from ty colon have "from_line stype sline = Inr (VStr ?val_s)"
      by (auto simp: from_line_colon)
    with fv l ty have v: "v = VStr ?val_s"
      by (auto simp: field_value_def)
    from r st have "map_of data (title_of sname) = rendered attrs sname stype" by blast
    with look v ty show ?thesis by (auto simp: rendered_def)
  qed
  from a d numeric textual show ?thesis by blast
qed

theorem numeric_field_without_number_witness:
  "wf_cls [(''Fan_Speed'', T_int), (''Product_Name'', T_str),
           (''Display_Active'', T_literal [''Enabled'', ''Disabled''])]
   \<and> find (\<lambda>l. sublist (title_of ''Fan_Speed'') l)
        [''    Fan Speed : N/A'', ''    Product Name : N/A'', ''    Display Active : Off''] =
       Some ''    Fan Speed : N/A''
   \<and> CHR '':'' \<in> set ''    Fan Speed : N/A''
   \<and> list_all (\<lambda>c. \<not> isdigit c \<and> c \<noteq> CHR ''.'') (tl (dropWhile (\<lambda>c. c \<noteq> CHR '':'') ''    Fan Speed : N/A''))
   \<and> (\<exists>attrs data.
         from_lines [(''Fan_Speed'', T_int), (''Product_Name'', T_str),
                     (''Display_Active'', T_literal [''Enabled'', ''Disabled''])]
           [''    Fan Speed : N/A'', ''    Product Name : N/A'', ''    Display Active : Off'']
         = Inr (VObj [(''Fan_Speed'', T_int), (''Product_Name'', T_str),
                      (''Display_Active'', T_literal [''Enabled'', ''Disabled''])] attrs)
         \<and> to_dict (VObj [(''Fan_Speed'', T_int), (''Product_Name'', T_str),
                           (''Display_Active'', T_literal [''Enabled'', ''Disabled''])] attrs)
             = Inr (VDict data)
         \<and> map_of attrs ''Fan_Speed'' = Some (VInt (- 1))
         \<and> map_of data ''Fan Speed'' = Some (VInt (- 1))
         \<and> map_of attrs ''Product_Name'' = Some (VStr ''N/A'')
         \<and> map_of data ''Product Name'' = None
         \<and> map_of attrs ''Display_Active'' = Some (VStr ''Off'')
         \<and> map_of data ''Display Active'' = Some (VStr ''Off''))"
proof -
  let ?cls = "[(''Fan_Speed'', T_int), (''Product_Name'', T_str),
               (''Display_Active'', T_literal [''Enabled'', ''Disabled''])]"
  let ?lines = "[''    Fan Speed : N/A'', ''    Product Name : N/A'', ''    Display Active : Off'']"
  have wf: "wf_cls ?cls" by (simp add: wf_cls_def)
  have f1: "find (\<lambda>l. sublist (title_of ''Fan_Speed'') l) ?lines = Some ''    Fan Speed : N/A''"
    by code_simp
  have f2: "find (\<lambda>l. sublist (title_of ''Product_Name'') l) ?lines = Some ''    Product Name : N/A''"
    by code_simp
  have f3: "find (\<lambda>l. sublist (title_of ''Display_Active'') l) ?lines = Some ''    Display Active : Off''"
    by code_simp
  have c1: "CHR '':'' \<in> set ''    Fan Speed : N/A''" and c2: "CHR '':'' \<in> set ''    Product Name : N/A''"
    and c3: "CHR '':'' \<in> set ''    Display Active : Off''"
    by simp_all
  have n1: "list_all (\<lambda>c. \<not> isdigit c \<and> c \<noteq> CHR ''.'')
      (tl (dropWhile (\<lambda>c. c \<noteq> CHR '':'') ''    Fan Speed : N/A''))"
    by code_simp
  have s2: "strip (tl (dropWhile (\<lambda>c. c \<noteq> CHR '':'') ''    Product Name : N/A'')) = ''N/A''"
    by code_simp
  have s3: "strip (tl (dropWhile (\<lambda>c. c \<noteq> CHR '':'') ''    Display Active : Off'')) = ''Off''"
    by code_simp
  have t1: "title_of ''Fan_Speed'' = ''Fan Speed''" and t2: "title_of ''Product_Name'' = ''Product Name''"
    and t3: "title_of ''Display_Active'' = ''Display Active''"
    by (simp_all add: title_of_def)
  from n1 have n1': "\<forall>c \<in> set (tl (dropWhile (\<lambda>c. c \<noteq> CHR '':'') ''    Fan Speed : N/A'')).
      \<not> isdigit c \<and> c \<noteq> CHR ''.''"
    by (simp only: list_all_iff)
  have m1: "(''Fan_Speed'', T_int) \<in> set ?cls" and m2: "(''Product_Name'', T_str) \<in> set ?cls"
    and m3: "(''Display_Active'', T_literal [''Enabled'', ''Disabled'']) \<in> set ?cls"
    by simp_all
  from numeric_field_without_number [OF wf m1 _ f1 c1 n1'] obtain attrs data
    where a: "from_lines ?cls ?lines = Inr (VObj ?cls attrs)"
      and d: "to_dict (VObj ?cls attrs) = Inr (VDict data)"
      and x: "map_of attrs ''Fan_Speed'' = Some (VInt (- 1))"
      and y: "map_of data (title_of ''Fan_Speed'') = Some (VInt (- 1))"
      and z: "\<forall>sname stype sline.
           (sname, stype) \<in> set ?cls \<and> (stype = T_str \<or> (\<exists>allowed. stype = T_literal allowed))
           \<and> find (\<lambda>l. sublist (title_of sname) l) ?lines = Some sline
           \<and> CHR '':'' \<in> set sline
           \<longrightarrow> map_of attrs sname = Some (VStr (strip (tl (dropWhile (\<lambda>c. c \<noteq> CHR '':'') sline))))
               \<and> map_of data (title_of sname) =
                   (if strip (tl (dropWhile (\<lambda>c. c \<noteq> CHR '':'') sline)) = ''N/A'' then None
                    else Some (VStr (strip (tl (dropWhile (\<lambda>c. c \<noteq> CHR '':'') sline)))))"
    by blast
  from z m2 f2 c2 have "map_of attrs ''Product_Name''
        = Some (VStr (strip (tl (dropWhile (\<lambda>c. c \<noteq> CHR '':'') ''    Product Name : N/A''))))
      \<and> map_of data (title_of ''Product_Name'') =
          (if strip (tl (dropWhile (\<lambda>c. c \<noteq> CHR '':'') ''    Product Name : N/A'')) = ''N/A'' then None
           else Some (VStr (strip (tl (dropWhile (\<lambda>c. c \<noteq> CHR '':'') ''    Product Name : N/A'')))))"
    by blast
  then have p: "map_of attrs ''Product_Name'' = Some (VStr ''N/A'')
      \<and> map_of data (title_of ''Product_Name'') = None"
    unfolding s2 by simp
  from z m3 f3 c3 have "map_of attrs ''Display_Active''
        = Some (VStr (strip (tl (dropWhile (\<lambda>c. c \<noteq> CHR '':'') ''    Display Active : Off''))))
      \<and> map_of data (title_of ''Display_Active'') =
          (if strip (tl (dropWhile (\<lambda>c. c \<noteq> CHR '':'') ''    Display Active : Off'')) = ''N/A'' then None
           else Some (VStr (strip (tl (dropWhile (\<lambda>c. c \<noteq> CHR '':'') ''    Display Active : Off'')))))"
    by blast
  then have q: "map_of attrs ''Display_Active'' = Some (VStr ''Off'')
      \<and> map_of data (title_of ''Display_Active'') = Some (VStr ''Off'')"
    unfolding s3 by simp
  from wf f1 c1 n1 a d x y p q show ?thesis
    unfolding t1 t2 t3 by blast
qed

section \<open>Listing the devices\<close>

declare re_search.simps [simp del]








section \<open>Ordinary runs\<close>

text \<open>
  The first section of a report. When the header occurs once, the lines before it are skipped, the
  header and the deeper-indented lines after it are collected, and the loop stops at the first line
  that is not indented deeper than the header.
\<close>

lemma lines_find_section_example:
  "lines_find_section [''Temperature'', ''  GPU Current Temp: 55'', ''Clocks'', ''  Graphics: 100'']
     ''Temperature''
   = [''Temperature'', ''  GPU Current Temp: 55'']"
  by code_simp

lemma section_loop_not_found:
  "\<forall>l \<in> set lines. strip l \<noteq> title \<Longrightarrow> section_loop title lines sec False indent = sec"
  by (induction lines) auto

lemma lines_find_section_not_found:
  "\<forall>l \<in> set lines. strip l \<noteq> title \<Longrightarrow> lines_find_section lines title = []"
  by (simp add: lines_find_section_def section_loop_not_found)

lemma section_loop_run:
  "\<forall>l \<in> set run. strip l \<noteq> title \<and> indent < count_leading_spaces l \<Longrightarrow>
     section_loop title (run @ rest) sec True indent = section_loop title rest (sec @ run) True indent"
  by (induction run arbitrary: sec) auto

lemma section_loop_stop:
  "rest = [] \<or> (strip (hd rest) \<noteq> title \<and> count_leading_spaces (hd rest) \<le> indent) \<Longrightarrow>
     section_loop title rest sec True indent = sec"
  by (cases rest) auto

lemma section_loop_skip:
  "\<forall>l \<in> set before. strip l \<noteq> title \<Longrightarrow>
     section_loop title (before @ rest) sec False indent = section_loop title rest sec False indent"
  by (induction before) auto

lemma lines_find_section_first_section:
  assumes "\<forall>l \<in> set before. strip l \<noteq> title"
    and "strip header = title"
    and "\<forall>l \<in> set run. strip l \<noteq> title \<and> count_leading_spaces header < count_leading_spaces l"
    and "rest = [] \<or> (strip (hd rest) \<noteq> title \<and> count_leading_spaces (hd rest) \<le> count_leading_spaces header)"
  shows "lines_find_section (before @ header # run @ rest) title = header # run"
proof -
  have "lines_find_section (before @ header # run @ rest) title
      = section_loop title (header # run @ rest) [] False (- 1)"
    using assms(1) by (simp add: lines_find_section_def section_loop_skip)
  also have "\<dots> = section_loop title (run @ rest) [header] True (count_leading_spaces header)"
    using assms(2) by simp
  also have "\<dots> = section_loop title rest ([header] @ run) True (count_leading_spaces header)"
    using assms(3) by (rule section_loop_run)
  also have "\<dots> = [header] @ run"
    using assms(4) by (rule section_loop_stop)
  finally show ?thesis by simp
qed

text \<open>
  Merging two records with nested sub-records: an attribute missing from the destination is copied,
  and a sub-record present in both is merged recursively. The destination may be the device object
  itself, as in \<^verbatim>\<open>NVSMI.__init__\<close>; as a source, its \<^verbatim>\<open>vars\<close> has no items to run over.
\<close>

lemma merge_loop_absent:
  "\<not> hasattr attrs name \<Longrightarrow>
     merge_loop (VObj cls attrs) ((name, v) # rest) = merge_loop (VObj cls (setitem attrs name v)) rest"
  by (simp add: contains_py_def setitem_py_def deepcopy_def)

lemma merge_loop_nested:
  "map_of attrs name = Some sub \<Longrightarrow>
     merge_loop (VObj cls attrs) ((name, v) # rest) =
       (case merge_object_attrs sub v of
          Inl e \<Rightarrow> Inl e
        | Inr sub' \<Rightarrow> merge_loop (VObj cls (setitem attrs name sub')) rest)"
  by (simp add: contains_py_def hasattr_def getitem_py_def getitem_def setitem_py_def deepcopy_def
      del: merge_object_attrs.simps split: sum.split)

lemma merge_object_attrs_example:
  "merge_object_attrs
     (VFacade [(''Product_Name'', T_str), (''Temperature'', T_class [(''GPU_Current_Temp'', T_int)]),
               (''Fan_Speed'', T_int)]
        [(''Product_Name'', VStr ''RTX''),
         (''Temperature'', VObj [(''GPU_Shutdown_Temp'', T_int)] [(''GPU_Shutdown_Temp'', VInt 95)])])
     (VObj [(''Fan_Speed'', T_int), (''Temperature'', T_class [(''GPU_Current_Temp'', T_int)])]
        [(''Fan_Speed'', VInt 40),
         (''Temperature'', VObj [(''GPU_Current_Temp'', T_int)] [(''GPU_Current_Temp'', VInt 55)])])
   = Inr (VFacade [(''Product_Name'', T_str), (''Temperature'', T_class [(''GPU_Current_Temp'', T_int)]),
                   (''Fan_Speed'', T_int)]
            [(''Product_Name'', VStr ''RTX''),
             (''Temperature'', VObj [(''GPU_Shutdown_Temp'', T_int)]
                [(''GPU_Shutdown_Temp'', VInt 95), (''GPU_Current_Temp'', VInt 55)]),
             (''Fan_Speed'', VInt 40)])"
  by code_simp

lemma merge_object_attrs_from_facade:
  "merge_object_attrs objA (VFacade cls attrs) = Inl AttributeError"
  by (simp add: vars_py_def)

text \<open>
  One line of a report, read as a number: the text after the colon is stripped, its first run of
  digits and dots is extracted and coerced.
\<close>

lemma regex_find_fan_speed: "regex_find ''40 %'' digits_dots = ''40''"
  by code_simp

lemma strip_fan_speed: "strip '' 40 %'' = ''40 %''"
  by code_simp

lemma parse_decimal_40: "parse_decimal ''40'' = Some (40, 0)"
  by code_simp

lemma float_py_40: "float_py ''40'' = Inr (Fin 40)"
  by (simp add: float_py_def parse_decimal_40 split_sign_def lower_def float_space_def round_defs)

lemma from_line_fan_speed:
  "from_line T_int ''    Fan Speed                        : 40 %'' = Inr (VInt 40)"
  by (simp add: from_line_colon strip_fan_speed regex_find_fan_speed str_to_num_cases float_py_40)

end
